theory Spec2Isabelle
  imports Main "HOL-Library.Sublist"
begin

section \<open>Drought automata of prueba.py\<close>

text \<open>
  The source is one Python module with three recognisers over symbol sequences:
  \<^item> \<^verbatim>\<open>class DFA\<close>: a finite automaton with two counters, looking for three or more
    \<^verbatim>\<open>t\<close> followed by two or more \<^verbatim>\<open>h\<close>;
  \<^item> \<^verbatim>\<open>class PDA\<close>: a stack recogniser for \<^verbatim>\<open>t^n h^n\<close>, \<^verbatim>\<open>n >= 1\<close>;
  \<^item> \<^verbatim>\<open>detectar_patrones\<close>: the two compiled regular expressions.

  A Python \<^verbatim>\<open>str\<close> is modelled as \<^typ>\<open>string\<close>, one \<^typ>\<open>char\<close> per symbol (the
  code only compares a symbol with \<^verbatim>\<open>'t'\<close> and \<^verbatim>\<open>'h'\<close>); Python's
  unbounded integers as \<^typ>\<open>int\<close>; the mutable instance as a record that each method
  takes and returns.
\<close>

subsection \<open>The DFA instance\<close>

text \<open>
  The attributes of a \<^verbatim>\<open>DFA\<close> object. The state is a Python string, and it stays a
  string here: a configuration whose \<^verbatim>\<open>estado\<close> is none of the six names is a value of
  the type, and \<^verbatim>\<open>step\<close> leaves it alone, as the \<^verbatim>\<open>if/elif\<close> chain without a final
  \<^verbatim>\<open>else\<close> does.
\<close>

record dfa =
  estado :: string
  cont_t :: int
  cont_h :: int

text \<open>\<^verbatim>\<open>reset\<close> (lines 45-48) assigns the three attributes.\<close>

definition reset :: "dfa \<Rightarrow> dfa" where
  "reset c = c\<lparr>estado := ''q0'', cont_t := 0, cont_h := 0\<rparr>"

text \<open>
  \<^verbatim>\<open>__init__\<close> (lines 42-43) calls \<^verbatim>\<open>reset\<close> on the new object, which has no
  attribute yet: the fresh instance is the record of the three assigned values.
\<close>

definition init :: dfa where
  "init = \<lparr>estado = ''q0'', cont_t = 0, cont_h = 0\<rparr>"

text \<open>
  \<^verbatim>\<open>step\<close> (lines 50-97), branch by branch and in the source's order. The two inner
  tests of lines 63 and 73 stand in the \<^verbatim>\<open>else\<close> branch of the same test, after the call
  of \<^verbatim>\<open>reset\<close>, and are kept as written.
\<close>

definition step :: "dfa \<Rightarrow> char \<Rightarrow> dfa" where
  "step c simbolo =
    (if estado c = ''q0'' then
       (if simbolo = CHR ''t'' then c\<lparr>cont_t := 1, estado := ''q1''\<rparr>
        else reset c)
     else if estado c = ''q1'' then
       (if simbolo = CHR ''t'' then
          (let c1 = c\<lparr>cont_t := cont_t c + 1\<rparr>
           in c1\<lparr>estado := (if cont_t c1 = 2 then ''q2'' else ''q1'')\<rparr>)
        else
          (let c1 = reset c
           in if simbolo = CHR ''t'' then c1\<lparr>cont_t := 1, estado := ''q1''\<rparr> else c1))
     else if estado c = ''q2'' then
       (if simbolo = CHR ''t'' then
          (let c1 = c\<lparr>cont_t := cont_t c + 1\<rparr>
           in if cont_t c1 \<ge> 3 then c1\<lparr>estado := ''q3''\<rparr> else c1)
        else
          (let c1 = reset c
           in if simbolo = CHR ''t'' then c1\<lparr>cont_t := 1, estado := ''q1''\<rparr> else c1))
     else if estado c = ''q3'' then
       (if simbolo = CHR ''h'' then c\<lparr>cont_h := 1, estado := ''q4''\<rparr>
        else if simbolo = CHR ''t'' then c\<lparr>cont_t := cont_t c + 1, estado := ''q3''\<rparr>
        else reset c)
     else if estado c = ''q4'' then
       (if simbolo = CHR ''h'' then
          (let c1 = c\<lparr>cont_h := cont_h c + 1\<rparr>
           in if cont_h c1 \<ge> 2 then c1\<lparr>estado := ''q_accept''\<rparr> else c1)
        else if simbolo = CHR ''t'' then c\<lparr>cont_t := 1, cont_h := 0, estado := ''q1''\<rparr>
        else reset c)
     else if estado c = ''q_accept'' then c\<lparr>estado := ''q_accept''\<rparr>
     else c)"

text \<open>
  The \<^verbatim>\<open>for\<close> loop of \<^verbatim>\<open>run\<close> (lines 101-105): one \<^verbatim>\<open>step\<close> per symbol, returning
  \<^verbatim>\<open>True\<close> as soon as the state is \<^verbatim>\<open>q_accept\<close>, and \<^verbatim>\<open>False\<close> when the symbols are
  used up. The instance as the call leaves it is returned beside the result.
\<close>

fun run_loop :: "dfa \<Rightarrow> string \<Rightarrow> bool \<times> dfa" where
  "run_loop c [] = (False, c)"
| "run_loop c (s # resto) =
     (let c1 = step c s
      in if estado c1 = ''q_accept'' then (True, c1) else run_loop c1 resto)"

text \<open>\<^verbatim>\<open>run\<close> (lines 99-105): \<^verbatim>\<open>reset\<close>, then the loop.\<close>

definition run :: "dfa \<Rightarrow> string \<Rightarrow> bool \<times> dfa" where
  "run c secuencia = run_loop (reset c) secuencia"

subsection \<open>The PDA\<close>

text \<open>
  The two operations of \<^verbatim>\<open>acepta\<close> that Python can refuse: indexing a string out
  of range and popping an empty list raise \<^verbatim>\<open>IndexError\<close>. Both are results here, so
  that the guards of the source (\<^verbatim>\<open>i < n\<close> before \<^verbatim>\<open>secuencia[i]\<close>, \<^verbatim>\<open>if not pila\<close>
  before \<^verbatim>\<open>pila.pop()\<close>) have something to guard.
\<close>

datatype error = IndexError

definition getitem :: "string \<Rightarrow> nat \<Rightarrow> error + char" where
  "getitem secuencia i =
     (if i < length secuencia then Inr (secuencia ! i) else Inl IndexError)"

definition pop :: "'a list \<Rightarrow> error + ('a \<times> 'a list)" where
  "pop pila = (if pila = [] then Inl IndexError else Inr (last pila, butlast pila))"

text \<open>
  The second loop of \<^verbatim>\<open>acepta\<close> (lines 122-126) together with the \<^verbatim>\<open>return\<close> that
  follows it (line 127). The test \<^verbatim>\<open>i < n and secuencia[i] == 'h'\<close> reads the symbol
  only when \<^verbatim>\<open>i < n\<close> holds; \<^verbatim>\<open>n\<close> is \<^verbatim>\<open>len(secuencia)\<close> throughout. The index only
  counts up from 0, so it is a \<^typ>\<open>nat\<close>.
\<close>

function bucle_h :: "string \<Rightarrow> char list \<Rightarrow> bool \<Rightarrow> nat \<Rightarrow> error + bool" where
  "bucle_h secuencia pila visto_t i =
     (if i < length secuencia then
        (case getitem secuencia i of
           Inl e \<Rightarrow> Inl e
         | Inr s \<Rightarrow>
             if s = CHR ''h'' then
               (if pila = [] then Inr False
                else
                  (case pop pila of
                     Inl e \<Rightarrow> Inl e
                   | Inr (_, pila') \<Rightarrow> bucle_h secuencia pila' visto_t (i + 1)))
             else Inr (visto_t \<and> pila = [] \<and> i = length secuencia))
      else Inr (visto_t \<and> pila = [] \<and> i = length secuencia))"
  by pat_completeness auto
termination
  by (relation "measure (\<lambda>(secuencia, pila, visto_t, i). length secuencia - i)") auto

text \<open>
  The first loop (lines 118-121), which goes on into the second one when its test
  fails. \<^verbatim>\<open>pila.append('T')\<close> adds the marker at the end of the list.
\<close>

function bucle_t :: "string \<Rightarrow> char list \<Rightarrow> bool \<Rightarrow> nat \<Rightarrow> error + bool" where
  "bucle_t secuencia pila visto_t i =
     (if i < length secuencia then
        (case getitem secuencia i of
           Inl e \<Rightarrow> Inl e
         | Inr s \<Rightarrow>
             if s = CHR ''t'' then bucle_t secuencia (pila @ [CHR ''T'']) True (i + 1)
             else bucle_h secuencia pila visto_t i)
      else bucle_h secuencia pila visto_t i)"
  by pat_completeness auto
termination
  by (relation "measure (\<lambda>(secuencia, pila, visto_t, i). length secuencia - i)") auto

declare bucle_h.simps [simp del] bucle_t.simps [simp del]

text \<open>\<^verbatim>\<open>acepta\<close> (lines 113-127): empty stack, no \<^verbatim>\<open>t\<close> seen, index 0.\<close>

definition acepta :: "string \<Rightarrow> error + bool" where
  "acepta secuencia = bucle_t secuencia [] False 0"

subsection \<open>The pattern detector\<close>

text \<open>
  Modelled from the spec: the regular expression engine behind \<^verbatim>\<open>re.compile\<close> and
  \<^verbatim>\<open>finditer\<close> is Python's library and not part of the source. The spec describes it
  for the two patterns of the module: all occurrences of "\<^verbatim>\<open>k\<close> or more \<^verbatim>\<open>a\<close> then
  \<^verbatim>\<open>l\<close> or more \<^verbatim>\<open>b\<close>", as literal substrings, left to right, non-overlapping, greedy.
  For two different symbols \<^verbatim>\<open>a\<close> and \<^verbatim>\<open>b\<close> and \<^verbatim>\<open>k >= 1\<close>, a match at the start of
  \<^verbatim>\<open>s\<close> is the whole run of \<^verbatim>\<open>a\<close> there followed by the whole run of \<^verbatim>\<open>b\<close> after it:
  giving back some \<^verbatim>\<open>a\<close> would put an \<^verbatim>\<open>a\<close> where a \<^verbatim>\<open>b\<close> is needed.
\<close>

definition match_runs :: "char \<Rightarrow> nat \<Rightarrow> char \<Rightarrow> nat \<Rightarrow> string \<Rightarrow> string option" where
  "match_runs a k b l s =
     (let as = takeWhile (\<lambda>x. x = a) s;
          bs = takeWhile (\<lambda>x. x = b) (dropWhile (\<lambda>x. x = a) s)
      in if k \<le> length as \<and> l \<le> length bs then Some (as @ bs) else None)"

text \<open>
  Modelled from the spec: \<^verbatim>\<open>finditer\<close> tries each position from the left; after a
  match, which has at least one symbol, the scan goes on behind its last symbol.
\<close>

function finditer_runs :: "char \<Rightarrow> nat \<Rightarrow> char \<Rightarrow> nat \<Rightarrow> string \<Rightarrow> string list" where
  "finditer_runs a k b l [] = []"
| "finditer_runs a k b l (x # xs) =
     (case match_runs a k b l (x # xs) of
        None \<Rightarrow> finditer_runs a k b l xs
      | Some m \<Rightarrow> m # finditer_runs a k b l (drop (length m - 1) xs))"
  by pat_completeness auto
termination
  by (relation "measure (\<lambda>(a, k, b, l, s). length s)") auto

declare finditer_runs.simps [simp del]

text \<open>The two compiled patterns (lines 22-23): \<^verbatim>\<open>t{3,}h{2,}\<close> and \<^verbatim>\<open>r{2,}x{3,}\<close>.\<close>

definition sequia_regex :: "string \<Rightarrow> string list" where
  "sequia_regex = finditer_runs (CHR ''t'') 3 (CHR ''h'') 2"

definition inundacion_regex :: "string \<Rightarrow> string list" where
  "inundacion_regex = finditer_runs (CHR ''r'') 2 (CHR ''x'') 3"

text \<open>
  \<^verbatim>\<open>detectar_patrones\<close> (lines 25-35) returns a dictionary with exactly two keys, the
  words for drought and flood; the record has one field for each.
\<close>

record patrones =
  sequia :: "string list"
  inundacion :: "string list"

definition detectar_patrones :: "string \<Rightarrow> patrones" where
  "detectar_patrones secuencia =
     \<lparr>sequia = sequia_regex secuencia, inundacion = inundacion_regex secuencia\<rparr>"

subsection \<open>Specification-level definitions\<close>

text \<open>
  The counters in each state, for every configuration the automaton can be in after
  \<^verbatim>\<open>reset\<close> and any number of steps.
\<close>

definition inv_dfa :: "dfa \<Rightarrow> bool" where
  "inv_dfa c =
     (estado c = ''q0'' \<and> cont_t c = 0 \<and> cont_h c = 0
      \<or> estado c = ''q1'' \<and> cont_t c = 1 \<and> cont_h c = 0
      \<or> estado c = ''q2'' \<and> cont_t c = 2 \<and> cont_h c = 0
      \<or> estado c = ''q3'' \<and> cont_t c \<ge> 3 \<and> cont_h c = 0
      \<or> estado c = ''q4'' \<and> cont_t c \<ge> 3 \<and> cont_h c = 1
      \<or> estado c = ''q_accept'' \<and> cont_t c \<ge> 3 \<and> cont_h c = 2)"

text \<open>
  \<^verbatim>\<open>step\<close> once more, with a flag beside the new configuration: the flag is
  \<^verbatim>\<open>True\<close> exactly when the assignments of lines 64-65 or of lines 74-75 are executed.
  Every other branch is the one of \<^const>\<open>step\<close>.
\<close>

definition step_traza :: "dfa \<Rightarrow> char \<Rightarrow> dfa \<times> bool" where
  "step_traza c simbolo =
    (if estado c = ''q0'' then
       (if simbolo = CHR ''t'' then (c\<lparr>cont_t := 1, estado := ''q1''\<rparr>, False)
        else (reset c, False))
     else if estado c = ''q1'' then
       (if simbolo = CHR ''t'' then
          (let c1 = c\<lparr>cont_t := cont_t c + 1\<rparr>
           in (c1\<lparr>estado := (if cont_t c1 = 2 then ''q2'' else ''q1'')\<rparr>, False))
        else
          (let c1 = reset c
           in if simbolo = CHR ''t'' then (c1\<lparr>cont_t := 1, estado := ''q1''\<rparr>, True)
              else (c1, False)))
     else if estado c = ''q2'' then
       (if simbolo = CHR ''t'' then
          (let c1 = c\<lparr>cont_t := cont_t c + 1\<rparr>
           in (if cont_t c1 \<ge> 3 then c1\<lparr>estado := ''q3''\<rparr> else c1, False))
        else
          (let c1 = reset c
           in if simbolo = CHR ''t'' then (c1\<lparr>cont_t := 1, estado := ''q1''\<rparr>, True)
              else (c1, False)))
     else (step c simbolo, False))"

text \<open>
  \<^verbatim>\<open>step\<close> with the two inner \<^verbatim>\<open>if\<close> statements (lines 63-65 and 73-75) taken out:
  the \<^verbatim>\<open>else\<close> branches of \<^verbatim>\<open>q1\<close> and \<^verbatim>\<open>q2\<close> only call \<^verbatim>\<open>reset\<close>.
\<close>

definition step_sin_reconsumo :: "dfa \<Rightarrow> char \<Rightarrow> dfa" where
  "step_sin_reconsumo c simbolo =
    (if estado c = ''q0'' then
       (if simbolo = CHR ''t'' then c\<lparr>cont_t := 1, estado := ''q1''\<rparr>
        else reset c)
     else if estado c = ''q1'' then
       (if simbolo = CHR ''t'' then
          (let c1 = c\<lparr>cont_t := cont_t c + 1\<rparr>
           in c1\<lparr>estado := (if cont_t c1 = 2 then ''q2'' else ''q1'')\<rparr>)
        else reset c)
     else if estado c = ''q2'' then
       (if simbolo = CHR ''t'' then
          (let c1 = c\<lparr>cont_t := cont_t c + 1\<rparr>
           in if cont_t c1 \<ge> 3 then c1\<lparr>estado := ''q3''\<rparr> else c1)
        else reset c)
     else if estado c = ''q3'' then
       (if simbolo = CHR ''h'' then c\<lparr>cont_h := 1, estado := ''q4''\<rparr>
        else if simbolo = CHR ''t'' then c\<lparr>cont_t := cont_t c + 1, estado := ''q3''\<rparr>
        else reset c)
     else if estado c = ''q4'' then
       (if simbolo = CHR ''h'' then
          (let c1 = c\<lparr>cont_h := cont_h c + 1\<rparr>
           in if cont_h c1 \<ge> 2 then c1\<lparr>estado := ''q_accept''\<rparr> else c1)
        else if simbolo = CHR ''t'' then c\<lparr>cont_t := 1, cont_h := 0, estado := ''q1''\<rparr>
        else reset c)
     else if estado c = ''q_accept'' then c\<lparr>estado := ''q_accept''\<rparr>
     else c)"

text \<open>
  The language of the drought pattern, as the claims word it: somewhere in the sequence,
  at least three \<^verbatim>\<open>t\<close> directly followed by at least two \<^verbatim>\<open>h\<close>.
\<close>

definition contiene_sequia :: "string \<Rightarrow> bool" where
  "contiene_sequia s =
     (\<exists>pre n m post. 3 \<le> n \<and> 2 \<le> m \<and>
        s = pre @ replicate n (CHR ''t'') @ replicate m (CHR ''h'') @ post)"

subsection \<open>Basic facts about the DFA\<close>

lemma reset_is_init: "reset c = init"
  by (simp add: reset_def init_def)

lemma run_from_init: "run c s = run_loop init s"
  by (simp add: run_def reset_is_init)

lemma accept_step: "estado c = ''q_accept'' \<Longrightarrow> estado (step c x) = ''q_accept''"
  by (simp add: step_def)

lemma accept_foldl: "estado c = ''q_accept'' \<Longrightarrow> estado (foldl step c xs) = ''q_accept''"
  by (induction xs arbitrary: c) (simp_all add: accept_step)

lemma run_loop_append: "fst (run_loop c s) \<Longrightarrow> fst (run_loop c (s @ s'))"
  by (induction s arbitrary: c) (auto simp: Let_def)

lemma run_loop_estado:
  "estado c \<noteq> ''q_accept'' \<Longrightarrow>
     (estado (snd (run_loop c s)) = ''q_accept'') = fst (run_loop c s)"
  by (induction s arbitrary: c) (simp_all add: Let_def)

lemma inv_dfa_init: "inv_dfa init"
  by (simp add: inv_dfa_def init_def)

lemma inv_dfa_step: "inv_dfa c \<Longrightarrow> inv_dfa (step c x)"
  unfolding inv_dfa_def
  by (elim disjE conjE) (simp_all add: step_def reset_def Let_def)

lemma inv_dfa_foldl: "inv_dfa c \<Longrightarrow> inv_dfa (foldl step c xs)"
  by (induction xs arbitrary: c) (simp_all add: inv_dfa_step)

subsection \<open>Basic facts about the PDA\<close>

text \<open>
  What the second loop returns from index \<^verbatim>\<open>i\<close> on: the rest of the sequence has to
  be exactly one \<^verbatim>\<open>h\<close> for each marker on the stack. The first loop adds the run of
  \<^verbatim>\<open>t\<close> in front. Neither ever returns \<^verbatim>\<open>IndexError\<close>.
\<close>

lemma bucle_h_char:
  "i \<le> length s \<Longrightarrow> bucle_h s pila v i = Inr (v \<and> drop i s = replicate (length pila) (CHR ''h''))"
proof (induction s pila v i rule: bucle_h.induct)
  case (1 secuencia pila visto_t i)
  show ?case
  proof (cases "i < length secuencia")
    case False
    with 1(2) show ?thesis by (subst bucle_h.simps) auto
  next
    case lt: True
    then have d: "drop i secuencia = secuencia ! i # drop (Suc i) secuencia"
      by (simp add: Cons_nth_drop_Suc)
    show ?thesis
    proof (cases "secuencia ! i = CHR ''h''")
      case False
      with lt d show ?thesis
        by (subst bucle_h.simps) (auto simp: getitem_def Cons_replicate_eq)
    next
      case h: True
      show ?thesis
      proof (cases "pila = []")
        case True
        with lt h d show ?thesis by (subst bucle_h.simps) (simp add: getitem_def)
      next
        case False
        then obtain k where k: "length pila = Suc k" by (cases pila) auto
        from False have "bucle_h secuencia (butlast pila) visto_t (i + 1)
            = Inr (visto_t \<and> drop (i + 1) secuencia = replicate (length (butlast pila)) (CHR ''h''))"
          using 1(1)[of "secuencia ! i" "(last pila, butlast pila)" "last pila" "butlast pila"] lt h
          by (simp add: getitem_def pop_def)
        with False lt h d k show ?thesis
          by (subst bucle_h.simps) (simp add: getitem_def pop_def)
      qed
    qed
  qed
qed

lemma runs_other:
  assumes "c \<noteq> CHR ''t''"
  shows "(\<exists>j. (v \<or> 0 < j) \<and> c # r = replicate j (CHR ''t'') @ replicate (k + j) (CHR ''h''))
         = (v \<and> c # r = replicate k (CHR ''h''))"
proof
  assume "\<exists>j. (v \<or> 0 < j) \<and> c # r = replicate j (CHR ''t'') @ replicate (k + j) (CHR ''h'')"
  then obtain j where j: "v \<or> 0 < j" "c # r = replicate j (CHR ''t'') @ replicate (k + j) (CHR ''h'')"
    by blast
  have "j = 0"
  proof (cases j)
    case (Suc m)
    with j(2) assms show ?thesis by simp
  qed simp
  with j show "v \<and> c # r = replicate k (CHR ''h'')" by simp
next
  assume "v \<and> c # r = replicate k (CHR ''h'')"
  then show "\<exists>j. (v \<or> 0 < j) \<and> c # r = replicate j (CHR ''t'') @ replicate (k + j) (CHR ''h'')"
    by (intro exI[of _ 0]) simp
qed

lemma runs_t:
  "(\<exists>j. (v \<or> 0 < j) \<and> CHR ''t'' # r = replicate j (CHR ''t'') @ replicate (k + j) (CHR ''h''))
   = (\<exists>j. r = replicate j (CHR ''t'') @ replicate (Suc k + j) (CHR ''h''))"
proof
  assume "\<exists>j. (v \<or> 0 < j) \<and> CHR ''t'' # r = replicate j (CHR ''t'') @ replicate (k + j) (CHR ''h'')"
  then obtain j where j: "CHR ''t'' # r = replicate j (CHR ''t'') @ replicate (k + j) (CHR ''h'')"
    by blast
  show "\<exists>j. r = replicate j (CHR ''t'') @ replicate (Suc k + j) (CHR ''h'')"
  proof (cases j)
    case 0
    with j show ?thesis by (cases k) simp_all
  next
    case (Suc m)
    with j have "r = replicate m (CHR ''t'') @ replicate (Suc k + m) (CHR ''h'')" by simp
    then show ?thesis ..
  qed
next
  assume "\<exists>j. r = replicate j (CHR ''t'') @ replicate (Suc k + j) (CHR ''h'')"
  then obtain m where "r = replicate m (CHR ''t'') @ replicate (Suc k + m) (CHR ''h'')" ..
  then have "(v \<or> 0 < Suc m) \<and> CHR ''t'' # r = replicate (Suc m) (CHR ''t'') @ replicate (k + Suc m) (CHR ''h'')"
    by simp
  then show "\<exists>j. (v \<or> 0 < j) \<and> CHR ''t'' # r = replicate j (CHR ''t'') @ replicate (k + j) (CHR ''h'')" ..
qed

lemma runs_nil:
  "(\<exists>j. (v \<or> 0 < j) \<and> [] = replicate j (CHR ''t'') @ replicate (k + j) (CHR ''h''))
   = (v \<and> k = 0)"
  by auto

lemma bucle_t_char:
  "i \<le> length s \<Longrightarrow> bucle_t s pila v i =
     Inr (\<exists>j. (v \<or> 0 < j) \<and>
            drop i s = replicate j (CHR ''t'') @ replicate (length pila + j) (CHR ''h''))"
proof (induction s pila v i rule: bucle_t.induct)
  case (1 secuencia pila visto_t i)
  show ?case
  proof (cases "i < length secuencia")
    case False
    with 1(2) have "drop i secuencia = []" by simp
    with False 1(2) show ?thesis
      by (subst bucle_t.simps) (simp add: bucle_h_char runs_nil del: replicate_eq_replicate)
  next
    case lt: True
    then have d: "drop i secuencia = secuencia ! i # drop (Suc i) secuencia"
      by (simp add: Cons_nth_drop_Suc)
    show ?thesis
    proof (cases "secuencia ! i = CHR ''t''")
      case False
      with lt d 1(2) show ?thesis
        by (subst bucle_t.simps) (simp add: getitem_def bucle_h_char runs_other)
    next
      case t: True
      have "bucle_t secuencia (pila @ [CHR ''T'']) True (i + 1) =
            Inr (\<exists>j. drop (i + 1) secuencia =
                   replicate j (CHR ''t'') @ replicate (length (pila @ [CHR ''T'']) + j) (CHR ''h''))"
        using 1(1)[of "secuencia ! i"] lt t by (simp add: getitem_def)
      with lt t d show ?thesis
        by (subst bucle_t.simps) (simp add: getitem_def runs_t)
    qed
  qed
qed

lemma acepta_char:
  "acepta s = Inr (\<exists>n\<ge>1. s = replicate n (CHR ''t'') @ replicate n (CHR ''h''))"
proof -
  have "(\<exists>j. (False \<or> 0 < j) \<and> drop 0 s = replicate j (CHR ''t'') @ replicate (length ([]::string) + j) (CHR ''h''))
      = (\<exists>n\<ge>1. s = replicate n (CHR ''t'') @ replicate n (CHR ''h''))"
    by (auto simp: Suc_le_eq)
  then show ?thesis
    unfolding acepta_def by (simp add: bucle_t_char)
qed

lemma runs_unique:
  assumes "replicate n (CHR ''t'') @ replicate m (CHR ''h'') = replicate k (CHR ''t'') @ replicate k (CHR ''h'')"
  shows "n = m"
proof -
  from assms have "length (filter (\<lambda>x. x = CHR ''t'') (replicate n (CHR ''t'') @ replicate m (CHR ''h'')))
     = length (filter (\<lambda>x. x = CHR ''t'') (replicate k (CHR ''t'') @ replicate k (CHR ''h'')))"
    by simp
  then have "n = k" by simp
  moreover from assms have "length (replicate n (CHR ''t'') @ replicate m (CHR ''h''))
     = length (replicate k (CHR ''t'') @ replicate k (CHR ''h''))" by simp
  ultimately show ?thesis by simp
qed

lemma acepta_other:
  assumes "x \<in> set s" "x \<noteq> CHR ''t''" "x \<noteq> CHR ''h''"
  shows "acepta s = Inr False"
proof -
  have "\<not> (\<exists>n\<ge>1. s = replicate n (CHR ''t'') @ replicate n (CHR ''h''))"
  proof
    assume "\<exists>n\<ge>1. s = replicate n (CHR ''t'') @ replicate n (CHR ''h'')"
    then obtain n where "s = replicate n (CHR ''t'') @ replicate n (CHR ''h'')" by blast
    with assms show False by (auto split: if_splits)
  qed
  then show ?thesis by (simp only: acepta_char)
qed

lemma step_other:
  "x \<noteq> CHR ''t'' \<Longrightarrow> x \<noteq> CHR ''h'' \<Longrightarrow>
   step c x = (if estado c \<in> {''q0'', ''q1'', ''q2'', ''q3'', ''q4''} then reset c else c)"
  by (auto simp add: step_def Let_def)


subsection \<open>The language of the DFA and of the drought pattern\<close>

text \<open>
  From each state the loop accepts what is left to read of \<^verbatim>\<open>ttthh\<close>: the state
  stands for the part of the pattern already seen (\<^verbatim>\<open>t\<close> in \<^verbatim>\<open>q1\<close>, \<^verbatim>\<open>tt\<close> in
  \<^verbatim>\<open>q2\<close>, \<^verbatim>\<open>ttt\<close> in \<^verbatim>\<open>q3\<close>, \<^verbatim>\<open>ttth\<close> in \<^verbatim>\<open>q4\<close>).
\<close>

lemma run_loop_lang:
  "(estado c = ''q0'' \<longrightarrow> fst (run_loop c s) = sublist ''ttthh'' s) \<and>
   (estado c = ''q1'' \<and> cont_t c = 1 \<longrightarrow> fst (run_loop c s) = sublist ''ttthh'' (''t'' @ s)) \<and>
   (estado c = ''q2'' \<and> cont_t c = 2 \<longrightarrow> fst (run_loop c s) = sublist ''ttthh'' (''tt'' @ s)) \<and>
   (estado c = ''q3'' \<and> cont_t c \<ge> 3 \<longrightarrow> fst (run_loop c s) = sublist ''ttthh'' (''ttt'' @ s)) \<and>
   (estado c = ''q4'' \<and> cont_h c = 1 \<longrightarrow> fst (run_loop c s) = sublist ''ttthh'' (''ttth'' @ s))"
proof (induction s arbitrary: c)
  case Nil
  show ?case by (simp add: sublist_Cons_right)
next
  case (Cons a s)
  have q0: "\<And>c. estado c = ''q0'' \<Longrightarrow> fst (run_loop c s) = sublist ''ttthh'' s"
    using Cons.IH by blast
  have q1: "\<And>c. estado c = ''q1'' \<Longrightarrow> cont_t c = 1 \<Longrightarrow>
      fst (run_loop c s) = sublist ''ttthh'' (''t'' @ s)"
    using Cons.IH by blast
  have q2: "\<And>c. estado c = ''q2'' \<Longrightarrow> cont_t c = 2 \<Longrightarrow>
      fst (run_loop c s) = sublist ''ttthh'' (''tt'' @ s)"
    using Cons.IH by blast
  have q3: "\<And>c. estado c = ''q3'' \<Longrightarrow> cont_t c \<ge> 3 \<Longrightarrow>
      fst (run_loop c s) = sublist ''ttthh'' (''ttt'' @ s)"
    using Cons.IH by blast
  have q4: "\<And>c. estado c = ''q4'' \<Longrightarrow> cont_h c = 1 \<Longrightarrow>
      fst (run_loop c s) = sublist ''ttthh'' (''ttth'' @ s)"
    using Cons.IH by blast
  show ?case
  proof (intro conjI impI)
    assume "estado c = ''q0''"
    then show "fst (run_loop c (a # s)) = sublist ''ttthh'' (a # s)"
      by (simp add: step_def reset_def Let_def q0 q1 sublist_Cons_right)
  next
    assume "estado c = ''q1'' \<and> cont_t c = 1"
    then show "fst (run_loop c (a # s)) = sublist ''ttthh'' (''t'' @ a # s)"
      by (simp add: step_def reset_def Let_def q0 q2 sublist_Cons_right)
  next
    assume "estado c = ''q2'' \<and> cont_t c = 2"
    then show "fst (run_loop c (a # s)) = sublist ''ttthh'' (''tt'' @ a # s)"
      by (simp add: step_def reset_def Let_def q0 q3 sublist_Cons_right)
  next
    assume "estado c = ''q3'' \<and> cont_t c \<ge> 3"
    then show "fst (run_loop c (a # s)) = sublist ''ttthh'' (''ttt'' @ a # s)"
      by (simp add: step_def reset_def Let_def q0 q3 q4 sublist_Cons_right)
  next
    assume "estado c = ''q4'' \<and> cont_h c = 1"
    then show "fst (run_loop c (a # s)) = sublist ''ttthh'' (''ttth'' @ a # s)"
      by (simp add: step_def reset_def Let_def q0 q1 sublist_Cons_right)
  qed
qed

lemma contiene_sequia_sublist: "contiene_sequia s = sublist ''ttthh'' s"
proof
  assume "contiene_sequia s"
  then obtain pre n m post where nm: "3 \<le> n" "2 \<le> m"
    and s: "s = pre @ replicate n (CHR ''t'') @ replicate m (CHR ''h'') @ post"
    unfolding contiene_sequia_def by blast
  from nm obtain n' m' where n': "n = n' + 3" and m': "m = 2 + m'"
    by (metis add.commute le_Suc_ex)
  have t3: "replicate 3 (CHR ''t'') = ''ttt''" and h2: "replicate 2 (CHR ''h'') = ''hh''"
    by (simp_all add: numeral_3_eq_3 numeral_2_eq_2)
  have "replicate n (CHR ''t'') = replicate n' (CHR ''t'') @ ''ttt''"
    unfolding n' replicate_add t3 ..
  moreover have "replicate m (CHR ''h'') = ''hh'' @ replicate m' (CHR ''h'')"
    unfolding m' replicate_add h2 ..
  ultimately have "replicate n (CHR ''t'') = replicate n' (CHR ''t'') @ ''ttt''"
    and "replicate m (CHR ''h'') = ''hh'' @ replicate m' (CHR ''h'')"
    by simp_all
  with s have "s = (pre @ replicate n' (CHR ''t'')) @ ''ttthh'' @ (replicate m' (CHR ''h'') @ post)"
    by simp
  then show "sublist ''ttthh'' s"
    unfolding sublist_def by blast
next
  assume "sublist ''ttthh'' s"
  then obtain pre post where "s = pre @ ''ttthh'' @ post"
    unfolding sublist_def by blast
  then have "3 \<le> (3::nat) \<and> 2 \<le> (2::nat) \<and>
      s = pre @ replicate 3 (CHR ''t'') @ replicate 2 (CHR ''h'') @ post"
    by (simp add: numeral_3_eq_3 numeral_2_eq_2)
  then show "contiene_sequia s"
    unfolding contiene_sequia_def by blast
qed

lemma match_runs_prefix:
  assumes "prefix ''ttthh'' s"
  shows "match_runs (CHR ''t'') 3 (CHR ''h'') 2 s \<noteq> None"
proof -
  from assms obtain r where "s = ''ttthh'' @ r" by (auto simp: prefix_def)
  then show ?thesis by (simp add: match_runs_def Let_def)
qed

lemma match_runs_sublist:
  assumes "match_runs (CHR ''t'') 3 (CHR ''h'') 2 s = Some m"
  shows "sublist ''ttthh'' s"
proof -
  let ?ts = "takeWhile (\<lambda>x. x = CHR ''t'') s"
  let ?r = "dropWhile (\<lambda>x. x = CHR ''t'') s"
  let ?hs = "takeWhile (\<lambda>x. x = CHR ''h'') ?r"
  from assms have len: "3 \<le> length ?ts" "2 \<le> length ?hs"
    by (auto simp: match_runs_def Let_def split: if_splits)
  have ts: "?ts = replicate (length ?ts) (CHR ''t'')"
    by (rule replicate_eqI) (auto dest: set_takeWhileD)
  have hs: "?hs = replicate (length ?hs) (CHR ''h'')"
    by (rule replicate_eqI) (auto dest: set_takeWhileD)
  have "s = ?ts @ ?hs @ dropWhile (\<lambda>x. x = CHR ''h'') ?r"
    by simp
  then have "s = [] @ replicate (length ?ts) (CHR ''t'') @ replicate (length ?hs) (CHR ''h'')
      @ dropWhile (\<lambda>x. x = CHR ''h'') ?r"
    using ts hs by simp
  with len have "contiene_sequia s"
    unfolding contiene_sequia_def by blast
  then show ?thesis by (simp add: contiene_sequia_sublist)
qed

lemma finditer_sublist:
  "(finditer_runs (CHR ''t'') 3 (CHR ''h'') 2 s \<noteq> []) = sublist ''ttthh'' s"
proof (induction s)
  case Nil
  show ?case by (simp add: finditer_runs.simps)
next
  case (Cons x xs)
  show ?case
  proof (cases "match_runs (CHR ''t'') 3 (CHR ''h'') 2 (x # xs)")
    case None
    then have "\<not> prefix ''ttthh'' (x # xs)"
      using match_runs_prefix by blast
    with None Cons.IH show ?thesis
      by (simp add: finditer_runs.simps sublist_Cons_right del: Cons_prefix_Cons)
  next
    case (Some m)
    then have "sublist ''ttthh'' (x # xs)" by (rule match_runs_sublist)
    with Some show ?thesis by (simp add: finditer_runs.simps)
  qed
qed

section \<open>The claims\<close>

text \<open>
  Claim C1: for every sequence \<open>s\<close>, \<^verbatim>\<open>DFA.run\<close> returns true if and only if \<open>s\<close>
  contains at least three \<^verbatim>\<open>t\<close> directly followed by at least two \<^verbatim>\<open>h\<close>; and
  that is exactly when the pattern \<^verbatim>\<open>t{3,}h{2,}\<close> of \<^verbatim>\<open>detectar_patrones\<close> has a
  match in \<open>s\<close>.
\<close>

theorem run_iff_contiene_sequia:
  "fst (run c s) = contiene_sequia s \<and>
   fst (run c s) = (sequia (detectar_patrones s) \<noteq> [])"
proof -
  have "fst (run c s) = sublist ''ttthh'' s"
    using run_loop_lang[of init s] by (simp add: run_from_init init_def)
  then show ?thesis
    by (simp add: contiene_sequia_sublist detectar_patrones_def sequia_regex_def
        finditer_sublist)
qed

text \<open>
  Claim C2: for every sequence \<open>s\<close>, \<^verbatim>\<open>PDA.acepta\<close> returns true if and only if \<open>s\<close>
  is \<^verbatim>\<open>t\<close> repeated \<open>n\<close> times followed by \<^verbatim>\<open>h\<close> repeated \<open>n\<close> times for some
  \<open>n \<ge> 1\<close>, with no other symbol anywhere. In particular it is true on
  \<^verbatim>\<open>'t'*n + 'h'*n\<close> for every \<open>n \<ge> 1\<close> and false on \<^verbatim>\<open>'t'*n + 'h'*m\<close> whenever
  \<open>n \<noteq> m\<close>.
\<close>

theorem acepta_language:
  "acepta s = Inr (\<exists>n\<ge>1. s = replicate n (CHR ''t'') @ replicate n (CHR ''h''))
   \<and> (\<forall>n\<ge>1. acepta (replicate n (CHR ''t'') @ replicate n (CHR ''h'')) = Inr True)
   \<and> (\<forall>n m. n \<noteq> m \<longrightarrow>
         acepta (replicate n (CHR ''t'') @ replicate m (CHR ''h'')) = Inr False)"
proof (intro conjI allI impI)
  show "acepta s = Inr (\<exists>n\<ge>1. s = replicate n (CHR ''t'') @ replicate n (CHR ''h''))"
    by (rule acepta_char)
next
  fix n :: nat assume "1 \<le> n"
  then have "\<exists>k\<ge>1. replicate n (CHR ''t'') @ replicate n (CHR ''h'')
               = replicate k (CHR ''t'') @ replicate k (CHR ''h'')"
    by blast
  then show "acepta (replicate n (CHR ''t'') @ replicate n (CHR ''h'')) = Inr True"
    by (simp only: acepta_char)
next
  fix n m :: nat assume "n \<noteq> m"
  then have "\<not> (\<exists>k\<ge>1. replicate n (CHR ''t'') @ replicate m (CHR ''h'')
               = replicate k (CHR ''t'') @ replicate k (CHR ''h''))"
    using runs_unique by blast
  then show "acepta (replicate n (CHR ''t'') @ replicate m (CHR ''h'')) = Inr False"
    by (simp only: acepta_char)
qed

theorem acepta_language_witness:
  "acepta ''tthh'' = Inr True \<and> acepta ''tth'' = Inr False \<and> acepta ''hh'' = Inr False"
proof -
  note th = acepta_language[of "[]"]
  have a: "acepta (replicate 2 (CHR ''t'') @ replicate 2 (CHR ''h'')) = Inr True"
    using th[THEN conjunct2, THEN conjunct1, rule_format, of 2] by simp
  have b: "acepta (replicate 2 (CHR ''t'') @ replicate 1 (CHR ''h'')) = Inr False"
    using th[THEN conjunct2, THEN conjunct2, rule_format, of 2 1] by simp
  have c: "acepta (replicate 0 (CHR ''t'') @ replicate 2 (CHR ''h'')) = Inr False"
    using th[THEN conjunct2, THEN conjunct2, rule_format, of 0 2] by simp
  from a b c show ?thesis by (simp add: numeral_2_eq_2)
qed

text \<open>
  Claim C3: \<^verbatim>\<open>run\<close> does not depend on what the instance did before. Whatever the
  configuration \<open>c\<close> and the sequences \<open>s1\<close> and \<open>s2\<close>, running \<open>s2\<close> on the instance
  that \<^verbatim>\<open>run(s1)\<close> left behind gives what running \<open>s2\<close> on a fresh instance gives
  (the returned value, and the configuration left behind as well).
\<close>

theorem run_history_independent:
  "run (snd (run c s1)) s2 = run init s2"
  by (simp add: run_from_init)

text \<open>
  Claim C4: the accepting state is absorbing. From a configuration in \<^verbatim>\<open>q_accept\<close>,
  one step on any symbol, and so any number of steps, stays in \<^verbatim>\<open>q_accept\<close>; and if
  \<^verbatim>\<open>run\<close> returns true on \<open>s\<close>, it returns true on \<open>s\<close> followed by any \<open>s'\<close>.
\<close>

theorem accept_absorbing:
  "(estado c = ''q_accept'' \<longrightarrow> estado (step c x) = ''q_accept'')
   \<and> (estado c = ''q_accept'' \<longrightarrow> estado (foldl step c xs) = ''q_accept'')
   \<and> (fst (run c s) \<longrightarrow> fst (run c (s @ s')))"
  by (simp add: accept_step accept_foldl run_from_init run_loop_append)

theorem accept_absorbing_witness:
  "estado (step \<lparr>estado = ''q_accept'', cont_t = 3, cont_h = 2\<rparr> (CHR ''x'')) = ''q_accept''
   \<and> estado (foldl step \<lparr>estado = ''q_accept'', cont_t = 3, cont_h = 2\<rparr> ''th'') = ''q_accept''
   \<and> fst (run \<lparr>estado = ''q_accept'', cont_t = 3, cont_h = 2\<rparr> ''ttthh'')
   \<and> fst (run \<lparr>estado = ''q_accept'', cont_t = 3, cont_h = 2\<rparr> (''ttthh'' @ ''xt''))"
  using accept_absorbing[of "\<lparr>estado = ''q_accept'', cont_t = 3, cont_h = 2\<rparr>"
      "CHR ''x''" "''th''" "''ttthh''" "''xt''"]
  by (simp add: run_def step_def reset_def Let_def)

text \<open>
  Claim C5: in every configuration reached from a freshly reset instance by any
  sequence of steps, the counters fit the state: both are 0 in \<^verbatim>\<open>q0\<close>; \<^verbatim>\<open>cont_t\<close> is
  1 in \<^verbatim>\<open>q1\<close> and 2 in \<^verbatim>\<open>q2\<close>; in \<^verbatim>\<open>q3\<close>, \<^verbatim>\<open>cont_t\<close> is at least 3 and \<^verbatim>\<open>cont_h\<close>
  is 0; in \<^verbatim>\<open>q4\<close>, \<^verbatim>\<open>cont_t\<close> is at least 3 and \<^verbatim>\<open>cont_h\<close> is 1.
\<close>

theorem counters_per_state:
  "let c = foldl step (reset c0) simbolos in
     (estado c = ''q0'' \<longrightarrow> cont_t c = 0 \<and> cont_h c = 0) \<and>
     (estado c = ''q1'' \<longrightarrow> cont_t c = 1) \<and>
     (estado c = ''q2'' \<longrightarrow> cont_t c = 2) \<and>
     (estado c = ''q3'' \<longrightarrow> cont_t c \<ge> 3 \<and> cont_h c = 0) \<and>
     (estado c = ''q4'' \<longrightarrow> cont_t c \<ge> 3 \<and> cont_h c = 1)"
proof -
  have "inv_dfa (foldl step (reset c0) simbolos)"
    by (simp add: reset_is_init inv_dfa_init inv_dfa_foldl)
  then show ?thesis
    unfolding inv_dfa_def Let_def by auto
qed

theorem counters_per_state_witness:
  "estado (foldl step (reset init) ''ttth'') = ''q4''
   \<and> cont_t (foldl step (reset init) ''ttth'') \<ge> 3
   \<and> cont_h (foldl step (reset init) ''ttth'') = 1"
  using counters_per_state[of init "''ttth''"]
  by (simp add: Let_def step_def reset_def init_def)

text \<open>
  Claim C6: the assignments behind the inner tests of lines 63 and 73 are never
  executed, for any configuration and any symbol, and \<^verbatim>\<open>step\<close> without lines 63-65
  and 73-75 is the same function.
\<close>

theorem reconsumo_unreachable:
  "step_traza c x = (step c x, False) \<and> step_sin_reconsumo c x = step c x"
  by (simp add: step_traza_def step_sin_reconsumo_def step_def Let_def)

text \<open>
  Claim C7: the empty sequence is a valid input of every operation. \<^verbatim>\<open>DFA.run("")\<close>
  returns false, \<^verbatim>\<open>PDA.acepta("")\<close> returns false (and not an error), and
  \<^verbatim>\<open>detectar_patrones("")\<close> returns the empty list for both patterns.
\<close>

theorem empty_sequence:
  "fst (run c []) = False \<and> acepta [] = Inr False
   \<and> detectar_patrones [] = \<lparr>sequia = [], inundacion = []\<rparr>"
  by (simp add: run_def acepta_def bucle_t.simps bucle_h.simps detectar_patrones_def
      sequia_regex_def inundacion_regex_def finditer_runs.simps)

text \<open>
  Claim C8: \<^verbatim>\<open>DFA.run\<close> and \<^verbatim>\<open>PDA.acepta\<close> are total. On every sequence, over any
  symbols, \<^verbatim>\<open>run\<close> returns a boolean and \<^verbatim>\<open>acepta\<close> returns a boolean and never
  \<^verbatim>\<open>IndexError\<close>. A symbol that is neither \<^verbatim>\<open>t\<close> nor \<^verbatim>\<open>h\<close> takes the generic
  transition of the DFA (\<^verbatim>\<open>reset\<close> in the states \<^verbatim>\<open>q0\<close> to \<^verbatim>\<open>q4\<close>, no change
  otherwise) and makes the PDA reject. Both loops are recursive functions whose
  termination is proved with the definitions above.
\<close>

theorem run_acepta_total:
  "(\<exists>b c'. run c s = (b, c')) \<and> (\<exists>b. acepta s = Inr b)
   \<and> (x \<noteq> CHR ''t'' \<and> x \<noteq> CHR ''h'' \<longrightarrow>
        step c x = (if estado c \<in> {''q0'', ''q1'', ''q2'', ''q3'', ''q4''} then reset c else c))
   \<and> (x \<in> set s \<and> x \<noteq> CHR ''t'' \<and> x \<noteq> CHR ''h'' \<longrightarrow> acepta s = Inr False)"
  using acepta_other[of x s] step_other[of x c] acepta_char[of s] by auto

theorem run_acepta_total_witness:
  "step \<lparr>estado = ''q3'', cont_t = 3, cont_h = 0\<rparr> (CHR ''r'')
     = \<lparr>estado = ''q0'', cont_t = 0, cont_h = 0\<rparr>
   \<and> acepta ''ttrhh'' = Inr False"
  using run_acepta_total[of "\<lparr>estado = ''q3'', cont_t = 3, cont_h = 0\<rparr>" "''ttrhh''" "CHR ''r''"]
  by (simp add: reset_def)

text \<open>
  Claim C9: the concrete cases of the spec. \<^verbatim>\<open>run\<close> is true on \<^verbatim>\<open>xxttthhxx\<close> and
  \<^verbatim>\<open>tttthhhh\<close> and false on \<^verbatim>\<open>ttth\<close>; \<^verbatim>\<open>acepta\<close> is true on \<^verbatim>\<open>ttthhh\<close> and false
  on \<^verbatim>\<open>tth\<close>, on \<^verbatim>\<open>xth\<close> and on the empty sequence.
\<close>

theorem concrete_cases:
  "fst (run c ''xxttthhxx'') = True \<and> fst (run c ''ttth'') = False
   \<and> fst (run c ''tttthhhh'') = True
   \<and> acepta ''ttthhh'' = Inr True \<and> acepta ''tth'' = Inr False
   \<and> acepta ''xth'' = Inr False \<and> acepta '''' = Inr False"
  by (simp add: run_def step_def reset_def Let_def acepta_def bucle_t.simps
      bucle_h.simps getitem_def pop_def)

text \<open>
  Claim C10: after \<^verbatim>\<open>run(s)\<close> returns, from any starting configuration, the
  attribute \<^verbatim>\<open>estado\<close> of the instance is \<^verbatim>\<open>q_accept\<close> if and only if the returned
  value is true.
\<close>

theorem run_estado_iff_result:
  "(estado (snd (run c s)) = ''q_accept'') = fst (run c s)"
  by (simp add: run_from_init run_loop_estado init_def)

end
